theory Spec2Isabelle
  imports Main
begin

section \<open>The request gateway: \<open>BaseProvider.make_request\<close>\<close>

text \<open>
  \<^verbatim>\<open>
  retry = _retry = kwargs.pop('retry', 2)
  expects = kwargs.pop('expects', None)
  throws = kwargs.pop('throws', exceptions.ProviderError)
  while retry >= 0:
      try:
          response = await aiohttp.request(method, url, *args, **kwargs)
          if expects and response.status not in expects:
              raise (await exceptions.exception_from_response(response, error=throws, **kwargs))
          return response
      except throws as e:
          if retry <= 0 or e.code not in self._retry_on:
              raise
          await asyncio.sleep((1 + _retry - retry) * 2)
          retry -= 1
  \<close>
  The remote end is the sequence of outcomes of the successive calls of
  \<open>aiohttp.request\<close>: the \<open>i\<close>-th call returns a response with a status, raises an
  instance of \<open>throws\<close> carrying a code, or raises some other exception, which the
  \<open>except throws\<close> clause does not catch. The sleeps are logged in order, in seconds.
  The decorator \<open>@throttle()\<close> runs once before the body, not before each attempt; it
  is embedded on its own below.
\<close>

datatype outcome =
    Returns int
  | RaisesThrows int
  | RaisesOther

datatype request_result =
    Response int
  | Error int
  | OtherError
  | NoResult

text \<open>
  Modelled from the spec: \<open>exceptions.exception_from_response\<close> is not among the
  sources; the error it builds is of kind \<open>throws\<close> and carries the status of the
  response as its code (a target that returns a retryable status code is retried).
\<close>

definition exception_from_response :: "int \<Rightarrow> int" where
  "exception_from_response status = status"

text \<open>\<open>expects and response.status not in expects\<close>: \<open>None\<close> and the empty tuple are falsy.\<close>

definition unexpected :: "int list option \<Rightarrow> int \<Rightarrow> bool" where
  "unexpected expects status =
     (case expects of None \<Rightarrow> False | Some xs \<Rightarrow> xs \<noteq> [] \<and> status \<notin> set xs)"

text \<open>
  What the \<open>try\<close> block does with one outcome: \<open>Inr\<close> leaves the loop (a returned
  response, or an exception that \<open>except throws\<close> does not catch), \<open>Inl c\<close> enters the
  handler with an error of code \<open>c\<close>.
\<close>

definition try_attempt :: "int list option \<Rightarrow> outcome \<Rightarrow> int + request_result" where
  "try_attempt expects out =
     (case out of
        Returns status \<Rightarrow>
          if unexpected expects status then Inl (exception_from_response status)
          else Inr (Response status)
      | RaisesThrows c \<Rightarrow> Inl c
      | RaisesOther \<Rightarrow> Inr OtherError)"

function make_request_loop ::
  "int set \<Rightarrow> int list option \<Rightarrow> (nat \<Rightarrow> outcome) \<Rightarrow> int \<Rightarrow> int \<Rightarrow> nat \<Rightarrow> int list
     \<Rightarrow> request_result \<times> int list" where
  "make_request_loop retry_on expects attempt retry0 retry i sleeps =
     (if retry \<ge> 0 then
        (case try_attempt expects (attempt i) of
           Inr r \<Rightarrow> (r, sleeps)
         | Inl c \<Rightarrow>
             if retry \<le> 0 \<or> c \<notin> retry_on then (Error c, sleeps)
             else make_request_loop retry_on expects attempt retry0 (retry - 1) (Suc i)
                    (sleeps @ [(1 + retry0 - retry) * 2]))
      else (NoResult, sleeps))"
  by pat_completeness auto
termination
  by (relation "measure (\<lambda>(ro, ex, at, r0, r, i, sl). nat (r + 1))") auto

declare make_request_loop.simps [simp del]

definition make_request ::
  "int set \<Rightarrow> int list option \<Rightarrow> (nat \<Rightarrow> outcome) \<Rightarrow> int \<Rightarrow> request_result \<times> int list" where
  "make_request retry_on expects attempt retry =
     make_request_loop retry_on expects attempt retry retry 0 []"

text \<open>The code of the error with which an attempt fails, if it fails with one.\<close>

definition failure_code :: "int list option \<Rightarrow> outcome \<Rightarrow> int option" where
  "failure_code expects out = (case try_attempt expects out of Inl c \<Rightarrow> Some c | Inr _ \<Rightarrow> None)"

definition default_retry_on :: "int set" where
  "default_retry_on = {408, 502, 503, 504}"


section \<open>The rate limiter: \<open>throttle\<close>\<close>

text \<open>
  \<^verbatim>\<open>
  _THROTTLES = weakref.WeakKeyDictionary()

  async def wrapped(*args, **kwargs):
      if asyncio.get_event_loop() not in _THROTTLES:
          count, last_call, event = 0, time.time(), asyncio.Event()
          _THROTTLES[asyncio.get_event_loop()] = (count, last_call, event)
          event.set()
      else:
          count, last_call, event = _THROTTLES[asyncio.get_event_loop()]
      await event.wait()
      count += 1
      if count > concurrency:
          count = 0
          if (time.time() - last_call) < interval:
              event.clear()
              await asyncio.sleep(interval - (time.time() - last_call))
              event.set()
      last_call = time.time()
      return (await func(*args, **kwargs))
  \<close>
  The dictionary maps an event loop to an immutable tuple; the tuple holds a reference to
  the \<open>asyncio.Event\<close>, a shared mutable object, so the events live in a store of
  their own. Time is the reading of a clock in integer ticks (\<open>interval\<close> is in the same
  unit); the clock moves between calls and when a call sleeps, and both readings that a
  call takes after its sleep give the same time. Every duration handed to \<open>asyncio.sleep\<close>
  and the time at which each wrapped call is started are logged. \<open>count\<close> and
  \<open>last_call\<close> are local variables of \<open>wrapped\<close>; their final values are returned
  beside the world.
\<close>

record throttle_world =
  THROTTLES :: "nat \<rightharpoonup> int \<times> int \<times> nat"
  events :: "nat \<Rightarrow> bool"
  next_event :: nat
  clock :: int
  slept :: "int list"
  started :: "int list"

definition lookup_or_init :: "nat \<Rightarrow> throttle_world \<Rightarrow> (int \<times> int \<times> nat) \<times> throttle_world" where
  "lookup_or_init loop w =
     (case THROTTLES w loop of
        None \<Rightarrow>
          (let event = next_event w; entry = (0, clock w, event)
           in (entry, w\<lparr>THROTTLES := (THROTTLES w)(loop \<mapsto> entry),
                         events := (events w)(event := True),
                         next_event := Suc event\<rparr>))
      | Some entry \<Rightarrow> (entry, w))"

definition sleep :: "int \<Rightarrow> throttle_world \<Rightarrow> throttle_world" where
  "sleep d w = w\<lparr>clock := clock w + max d 0, slept := slept w @ [d]\<rparr>"

definition call_func :: "throttle_world \<Rightarrow> throttle_world" where
  "call_func w = w\<lparr>started := started w @ [clock w]\<rparr>"

text \<open>
  A call that finds the event cleared waits for another task to set it; in a run of one
  call after the other nothing can, and the call does not return: \<open>None\<close>.
\<close>

definition wrapped ::
  "int \<Rightarrow> int \<Rightarrow> nat \<Rightarrow> throttle_world \<Rightarrow> ((int \<times> int) \<times> throttle_world) option" where
  "wrapped concurrency interval loop w =
     (let ((count, last_call, event), w1) = lookup_or_init loop w in
      if \<not> events w1 event then None
      else
        let count = count + 1 in
        if count > concurrency then
          (let count = 0 in
           if clock w1 - last_call < interval then
             (let w2 = w1\<lparr>events := (events w1)(event := False)\<rparr>;
                  w3 = sleep (interval - (clock w2 - last_call)) w2;
                  w4 = w3\<lparr>events := (events w3)(event := True)\<rparr>
              in Some ((count, clock w4), call_func w4))
           else Some ((count, clock w1), call_func w1))
        else Some ((count, clock w1), call_func w1))"

text \<open>
  Calls of the wrapped function on one event loop, one after the other: before each call
  the clock advances by the given gap. \<open>arrivals\<close> are the times at which the calls
  are made.
\<close>

fun calls :: "int \<Rightarrow> int \<Rightarrow> nat \<Rightarrow> int list \<Rightarrow> throttle_world \<Rightarrow> throttle_world option" where
  "calls concurrency interval loop [] w = Some w"
| "calls concurrency interval loop (gap # gaps) w =
     (case wrapped concurrency interval loop (w\<lparr>clock := clock w + gap\<rparr>) of
        None \<Rightarrow> None
      | Some (_, w') \<Rightarrow> calls concurrency interval loop gaps w')"

fun arrivals :: "int \<Rightarrow> int list \<Rightarrow> int list" where
  "arrivals now [] = []"
| "arrivals now (gap # gaps) = (now + gap) # arrivals (now + gap) gaps"

definition fresh_world :: "int \<Rightarrow> throttle_world" where
  "fresh_world now =
     \<lparr>THROTTLES = Map.empty, events = (\<lambda>_. False), next_event = 0, clock = now,
      slept = [], started = []\<rparr>"

text \<open>
  The pacing the limiter is meant to give: no window of \<open>interval\<close> ticks that opens at
  the start of a call holds the starts of more than \<open>concurrency\<close> calls.
\<close>

definition paced :: "int \<Rightarrow> int \<Rightarrow> int list \<Rightarrow> bool" where
  "paced concurrency interval starts =
     list_all
       (\<lambda>t. int (length (filter (\<lambda>s. t \<le> s \<and> s < t + interval) starts)) \<le> concurrency)
       starts"

section \<open>Paths\<close>

text \<open>
  Modelled from the spec: the path class (\<open>waterbutler.core.path\<close>) is not among the
  sources. A path is an ordered sequence of named segments and a flag \<open>is_dir\<close>; its
  \<open>name\<close> is that of the last segment, its \<open>parent\<close> is a path, or null at the root;
  \<open>child\<close> builds a new path below it; \<open>increment_name\<close> produces the next name of a
  numbered-suffix sequence (\<open>a.txt\<close>, \<open>a (1).txt\<close>, \<open>a (2).txt\<close>, ...); \<open>rename\<close>
  replaces the name. A segment keeps its stem, its extension and the number of
  increments, and may carry an identifier assigned by the backend. The root is the path
  whose only segment has the empty name.
\<close>

record path_part =
  part_name :: string
  part_ext :: string
  part_count :: nat
  part_id :: "string option"

record path =
  parts :: "path_part list"
  is_dir :: bool

definition digit_char :: "nat \<Rightarrow> char" where
  "digit_char d = ''0123456789'' ! d"

fun decimal :: "nat \<Rightarrow> string" where
  "decimal n = (if n < 10 then [digit_char n] else decimal (n div 10) @ [digit_char (n mod 10)])"

declare decimal.simps [simp del]

definition part_value :: "path_part \<Rightarrow> string" where
  "part_value p =
     (if part_count p \<noteq> 0
      then part_name p @ '' ('' @ decimal (part_count p) @ '')'' @ part_ext p
      else part_name p @ part_ext p)"

text \<open>
  The split of a name into stem and extension, as \<open>os.path.splitext\<close> does it on a name
  without separators: the extension starts at the last dot, unless only dots precede it.
\<close>

definition splitext :: "string \<Rightarrow> string \<times> string" where
  "splitext nm =
     (let r = rev nm;
          e = takeWhile (\<lambda>c. c \<noteq> CHR ''.'') r
      in case dropWhile (\<lambda>c. c \<noteq> CHR ''.'') r of
           [] \<Rightarrow> (nm, [])
         | _ # s \<Rightarrow>
             if list_all (\<lambda>c. c = CHR ''.'') s then (nm, [])
             else (rev s, CHR ''.'' # rev e))"

definition mk_part :: "string \<Rightarrow> string option \<Rightarrow> path_part" where
  "mk_part nm i =
     (let (s, e) = splitext nm
      in \<lparr>part_name = s, part_ext = e, part_count = 0, part_id = i\<rparr>)"

definition name :: "path \<Rightarrow> string" where
  "name p = (if parts p = [] then [] else part_value (last (parts p)))"

definition is_file :: "path \<Rightarrow> bool" where
  "is_file p = (\<not> is_dir p)"

definition parent :: "path \<Rightarrow> path option" where
  "parent p =
     (if length (parts p) \<le> 1 then None
      else Some \<lparr>parts = butlast (parts p), is_dir = True\<rparr>)"

definition child :: "path \<Rightarrow> string \<Rightarrow> bool \<Rightarrow> path" where
  "child base nm folder = \<lparr>parts = parts base @ [mk_part nm None], is_dir = folder\<rparr>"

definition increment_part :: "path_part \<Rightarrow> path_part" where
  "increment_part p = p\<lparr>part_count := Suc (part_count p), part_id := None\<rparr>"

definition increment_name :: "path \<Rightarrow> path" where
  "increment_name p =
     (if parts p = [] then p
      else p\<lparr>parts := butlast (parts p) @ [increment_part (last (parts p))]\<rparr>)"

definition rename_path :: "path \<Rightarrow> string \<Rightarrow> path" where
  "rename_path p nm =
     (if parts p = [] then p
      else p\<lparr>parts := butlast (parts p) @ [mk_part nm (part_id (last (parts p)))]\<rparr>)"

definition root :: path where
  "root = \<lparr>parts = [mk_part [] None], is_dir = True\<rparr>"


section \<open>Errors, metadata and the capability contract\<close>

text \<open>
  Modelled from the spec: the module \<open>waterbutler.core.exceptions\<close> is not among the
  sources. \<open>ProviderError\<close> carries a numeric code; \<open>NotFoundError\<close> (code 404),
  \<open>MetadataError\<close>, \<open>DeleteError\<close>, \<open>FolderCreationError\<close> and \<open>NamingConflict\<close>
  (which carries the conflicting path) refine it, so \<open>except ProviderError\<close> catches
  them all. \<open>UploadError\<close> and \<open>DownloadError\<close> are named by the docstrings of the
  sources. The remaining constructors are Python's own exceptions that the code can raise;
  they are not provider errors and carry no code.
\<close>

datatype exn =
    ProviderError int
  | NotFoundError
  | MetadataError int
  | DeleteError int
  | FolderCreationError int
  | UploadError int
  | DownloadError int
  | NamingConflict path
  | ValueError
  | AttributeError
  | TypeError
  | AssertionError
  | NotImplementedError

fun is_provider_error :: "exn \<Rightarrow> bool" where
  "is_provider_error ValueError = False"
| "is_provider_error AttributeError = False"
| "is_provider_error TypeError = False"
| "is_provider_error AssertionError = False"
| "is_provider_error NotImplementedError = False"
| "is_provider_error _ = True"

text \<open>
  The attribute \<open>code\<close> of a provider error. The spec gives no code for
  \<open>NamingConflict\<close>; it is the status of an HTTP conflict here.
\<close>

fun code :: "exn \<Rightarrow> int" where
  "code (ProviderError c) = c"
| "code NotFoundError = 404"
| "code (MetadataError c) = c"
| "code (DeleteError c) = c"
| "code (FolderCreationError c) = c"
| "code (UploadError c) = c"
| "code (DownloadError c) = c"
| "code (NamingConflict _) = 409"
| "code _ = 0"

datatype metadata = Metadata (md_name: string) (is_folder: bool) (children: "metadata list")

text \<open>What \<open>metadata\<close> returns: one metadata object for a file, a list for a folder.\<close>

datatype listing = Single metadata | Listing "metadata list"

text \<open>What \<open>exists\<close> returns: the result of \<open>metadata\<close>, or \<open>False\<close>.\<close>

datatype existence = PyFalse | Found listing

text \<open>Python's truth value of such a result, and its comparison \<open>== []\<close>.\<close>

fun truthy :: "existence \<Rightarrow> bool" where
  "truthy PyFalse = False"
| "truthy (Found (Single _)) = True"
| "truthy (Found (Listing ms)) = (ms \<noteq> [])"

fun eq_empty_list :: "existence \<Rightarrow> bool" where
  "eq_empty_list (Found (Listing [])) = True"
| "eq_empty_list _ = False"

record stream =
  stream_name :: "string option"
  stream_data :: string

text \<open>
  The abstract methods of \<open>BaseProvider\<close>, and the methods a backend overrides
  (\<open>create_folder\<close>, \<open>can_intra_copy\<close>, \<open>can_intra_move\<close>, \<open>intra_copy\<close>), are the
  fields of a record of operations on the state \<open>'b\<close> of the storage services.
  \<open>metadata\<close> and \<open>download\<close> are queries: they read that state. The other operations
  return the state they leave behind, also when they raise. The operations read the path
  objects they are given and do not change them. \<open>can_intra_copy\<close> and
  \<open>can_intra_move\<close> see the other provider through its \<open>NAME\<close>.
\<close>

record 'b provider =
  NAME :: string
  metadata :: "'b \<Rightarrow> path \<Rightarrow> exn + listing"
  download :: "'b \<Rightarrow> path \<Rightarrow> exn + stream"
  upload :: "stream \<Rightarrow> path \<Rightarrow> 'b \<Rightarrow> (exn + metadata \<times> bool) \<times> 'b"
  delete :: "path \<Rightarrow> 'b \<Rightarrow> (exn + unit) \<times> 'b"
  create_folder :: "path \<Rightarrow> 'b \<Rightarrow> (exn + metadata) \<times> 'b"
  can_intra_copy :: "string \<Rightarrow> path \<Rightarrow> bool"
  can_intra_move :: "string \<Rightarrow> path \<Rightarrow> bool"
  intra_copy :: "string \<Rightarrow> path \<Rightarrow> path \<Rightarrow> 'b \<Rightarrow> (exn + metadata \<times> bool) \<times> 'b"

text \<open>
  Path objects are mutable and passed by reference (\<open>increment_name\<close> and \<open>rename\<close>
  change them in place), so they live in a store: an address is a natural number,
  \<open>next_addr\<close> is the first address not yet in use.
\<close>

record 'b world =
  heap :: "nat \<Rightarrow> path"
  next_addr :: nat
  backend :: 'b

type_synonym 'b transfer = "((exn + metadata \<times> bool) \<times> 'b world) option"

definition alloc :: "path \<Rightarrow> 'b world \<Rightarrow> nat \<times> 'b world" where
  "alloc p w = (next_addr w, w\<lparr>heap := (heap w)(next_addr w := p), next_addr := Suc (next_addr w)\<rparr>)"

text \<open>\<open>revalidate_path\<close> of the base class: \<open>return base.child(path, folder=folder)\<close>.\<close>

definition revalidate_path :: "path \<Rightarrow> string \<Rightarrow> bool \<Rightarrow> 'b world \<Rightarrow> nat \<times> 'b world" where
  "revalidate_path base nm folder w = alloc (child base nm folder) w"

section \<open>Existence and naming conflicts\<close>

text \<open>
  \<^verbatim>\<open>
  try:
      return (await self.metadata(path, **kwargs))
  except exceptions.NotFoundError:
      return False
  except exceptions.MetadataError as e:
      if e.code != 404:
          raise
  return False
  \<close>
\<close>

definition exists :: "'b provider \<Rightarrow> 'b \<Rightarrow> path \<Rightarrow> exn + existence" where
  "exists self b p =
     (case metadata self b p of
        Inr m \<Rightarrow> Inr (Found m)
      | Inl NotFoundError \<Rightarrow> Inr PyFalse
      | Inl (MetadataError c) \<Rightarrow> if c \<noteq> 404 then Inl (MetadataError c) else Inr PyFalse
      | Inl e \<Rightarrow> Inl e)"

text \<open>
  \<^verbatim>\<open>
  while True:
      path.increment_name()
      test_path = await self.revalidate_path(path.parent, path.name, folder=path.is_dir)
      exists = await self.exists(test_path, **kwargs)
      if not (exists or exists == []):
          break
  return path, False
  \<close>
  \<open>path.parent\<close> is null at the root, and \<open>revalidate_path\<close> then fails on
  \<open>base.child\<close>. A loop that finds every candidate taken does not return: \<open>None\<close>.
\<close>

partial_function (option) keep_loop ::
  "'b provider \<Rightarrow> nat \<Rightarrow> 'b world \<Rightarrow> ((exn + nat \<times> existence) \<times> 'b world) option" where
  "keep_loop self path w =
     (let w1 = w\<lparr>heap := (heap w)(path := increment_name (heap w path))\<rparr>
      in case parent (heap w1 path) of
           None \<Rightarrow> Some (Inl AttributeError, w1)
         | Some base \<Rightarrow>
             (let (test_path, w2) =
                    revalidate_path base (name (heap w1 path)) (is_dir (heap w1 path)) w1
              in case exists self (backend w2) (heap w2 test_path) of
                   Inl e \<Rightarrow> Some (Inl e, w2)
                 | Inr ex \<Rightarrow>
                     if \<not> (truthy ex \<or> eq_empty_list ex) then Some (Inr (path, PyFalse), w2)
                     else keep_loop self path w2))"

declare keep_loop.simps [code]

text \<open>
  \<^verbatim>\<open>
  exists = await self.exists(path, **kwargs)
  if (not exists and not exists == []) or conflict == 'replace':
      return path, exists
  if conflict == 'warn':
      raise exceptions.NamingConflict(path)
  \<close>
\<close>

definition handle_name_conflict ::
  "'b provider \<Rightarrow> nat \<Rightarrow> string \<Rightarrow> 'b world \<Rightarrow> ((exn + nat \<times> existence) \<times> 'b world) option" where
  "handle_name_conflict self path conflict w =
     (case exists self (backend w) (heap w path) of
        Inl e \<Rightarrow> Some (Inl e, w)
      | Inr ex \<Rightarrow>
          if (\<not> truthy ex \<and> \<not> eq_empty_list ex) \<or> conflict = ''replace''
          then Some (Inr (path, ex), w)
          else if conflict = ''warn'' then Some (Inl (NamingConflict (heap w path)), w)
          else keep_loop self path w)"

text \<open>
  \<^verbatim>\<open>
  if src_path.is_dir and dest_path.is_file:
      raise ValueError('Destination must be a directory if the source is')
  if not dest_path.is_file:
      dest_path = await self.revalidate_path(dest_path, rename or src_path.name,
                                             folder=src_path.is_dir)
  dest_path, _ = await self.handle_name_conflict(dest_path, conflict=conflict)
  return dest_path
  \<close>
  In \<open>rename or src_path.name\<close>, \<open>None\<close> and the empty string are falsy.
\<close>

definition rename_or :: "string option \<Rightarrow> string \<Rightarrow> string" where
  "rename_or rename nm = (case rename of None \<Rightarrow> nm | Some r \<Rightarrow> if r = [] then nm else r)"

definition handle_naming ::
  "'b provider \<Rightarrow> nat \<Rightarrow> nat \<Rightarrow> string option \<Rightarrow> string \<Rightarrow> 'b world
     \<Rightarrow> ((exn + nat) \<times> 'b world) option" where
  "handle_naming self src_path dest_path rename conflict w =
     (if is_dir (heap w src_path) \<and> is_file (heap w dest_path) then Some (Inl ValueError, w)
      else
        let (dest_path, w1) =
              (if \<not> is_file (heap w dest_path)
               then revalidate_path (heap w dest_path)
                      (rename_or rename (name (heap w src_path))) (is_dir (heap w src_path)) w
               else (dest_path, w))
        in case handle_name_conflict self dest_path conflict w1 of
             None \<Rightarrow> None
           | Some (Inl e, w2) \<Rightarrow> Some (Inl e, w2)
           | Some (Inr (dest_path, _), w2) \<Rightarrow> Some (Inr dest_path, w2))"


section \<open>The recursive tree operation: \<open>_folder_file_op\<close>\<close>

text \<open>
  \<^verbatim>\<open>
  try:
      await dest_provider.delete(dest_path)
      created = False
  except exceptions.ProviderError as e:
      if e.code != 404:
          raise
      created = True
  \<close>
\<close>

definition delete_dest :: "'b provider \<Rightarrow> nat \<Rightarrow> 'b world \<Rightarrow> (exn + bool) \<times> 'b world" where
  "delete_dest dest_provider dest_path w =
     (case delete dest_provider (heap w dest_path) (backend w) of
        (Inr _, b) \<Rightarrow> (Inr False, w\<lparr>backend := b\<rparr>)
      | (Inl e, b) \<Rightarrow>
          (if is_provider_error e then (if code e \<noteq> 404 then Inl e else Inr True) else Inl e,
           w\<lparr>backend := b\<rparr>))"

text \<open>
  \<open>for i in range(0, len(items), settings.OP_CONCURRENCY)\<close> with the slice
  \<open>items[i:i + settings.OP_CONCURRENCY]\<close>: the batches, for a positive step. The
  setting is not among the sources and is a parameter.
\<close>

function batches :: "nat \<Rightarrow> 'a list \<Rightarrow> 'a list list" where
  "batches n xs = (if n = 0 \<or> xs = [] then [] else take n xs # batches n (drop n xs))"
  by pat_completeness auto
termination
  by (relation "measure (\<lambda>(n, xs). length xs)") auto

declare batches.simps [simp del]

text \<open>
  \<^verbatim>\<open>
  futures = []
  for item in items[i:i + settings.OP_CONCURRENCY]:
      futures.append(asyncio.ensure_future(
          func(
              dest_provider,
              (await self.revalidate_path(src_path, item.name, folder=item.is_folder)),
              (await dest_provider.revalidate_path(dest_path, item.name, folder=item.is_folder)),
              handle_naming=False,
          )
      ))
      if item.is_folder:
          await futures[-1]
  \<close>
  The embedding fixes one schedule of the event loop, the one that results when no
  operation of a provider suspends: every scheduled child operation runs to completion,
  in the order in which the futures were created. A future holds the result or the
  exception of its operation. Awaiting the future of a folder child re-raises its
  exception at once; the exception of a file child stays in its future until the batch is
  waited for, and the children scheduled after it in the batch still run.
\<close>

fun run_batch ::
  "('b provider \<Rightarrow> nat \<Rightarrow> nat \<Rightarrow> 'b world \<Rightarrow> 'b transfer) \<Rightarrow> 'b provider \<Rightarrow> nat \<Rightarrow> nat
     \<Rightarrow> metadata list \<Rightarrow> (exn + metadata \<times> bool) list \<Rightarrow> 'b world
     \<Rightarrow> ((exn + (exn + metadata \<times> bool) list) \<times> 'b world) option" where
  "run_batch func dest_provider src_path dest_path [] futures w = Some (Inr futures, w)"
| "run_batch func dest_provider src_path dest_path (item # items) futures w =
     (let (src_child, w1) =
            revalidate_path (heap w src_path) (md_name item) (is_folder item) w;
          (dest_child, w2) =
            revalidate_path (heap w1 dest_path) (md_name item) (is_folder item) w1
      in case func dest_provider src_child dest_child w2 of
           None \<Rightarrow> None
         | Some (r, w3) \<Rightarrow>
             (case r of
                Inl e \<Rightarrow>
                  if is_folder item then Some (Inl e, w3)
                  else run_batch func dest_provider src_path dest_path items (futures @ [r]) w3
              | Inr _ \<Rightarrow>
                  run_batch func dest_provider src_path dest_path items (futures @ [r]) w3))"

text \<open>
  \<^verbatim>\<open>
  done, _ = await asyncio.wait(futures, return_when=asyncio.FIRST_EXCEPTION)
  for fut in done:
      folder.children.append(fut.result()[0])
  \<close>
  \<open>done\<close> is a set; the embedding reads it in the order of creation.
\<close>

fun results :: "(exn + metadata \<times> bool) list \<Rightarrow> exn + metadata list" where
  "results [] = Inr []"
| "results (Inl e # futures) = Inl e"
| "results (Inr (m, _) # futures) =
     (case results futures of Inl e \<Rightarrow> Inl e | Inr ms \<Rightarrow> Inr (m # ms))"

fun run_batches ::
  "('b provider \<Rightarrow> nat \<Rightarrow> nat \<Rightarrow> 'b world \<Rightarrow> 'b transfer) \<Rightarrow> 'b provider \<Rightarrow> nat \<Rightarrow> nat
     \<Rightarrow> metadata list list \<Rightarrow> metadata list \<Rightarrow> 'b world
     \<Rightarrow> ((exn + metadata list) \<times> 'b world) option" where
  "run_batches func dest_provider src_path dest_path [] folder_children w =
     Some (Inr folder_children, w)"
| "run_batches func dest_provider src_path dest_path (batch # rest) folder_children w =
     (case run_batch func dest_provider src_path dest_path batch [] w of
        None \<Rightarrow> None
      | Some (Inl e, w1) \<Rightarrow> Some (Inl e, w1)
      | Some (Inr futures, w1) \<Rightarrow>
          (case results futures of
             Inl e \<Rightarrow> Some (Inl e, w1)
           | Inr ms \<Rightarrow>
               run_batches func dest_provider src_path dest_path rest (folder_children @ ms) w1))"

text \<open>
  \<^verbatim>\<open>
  folder = await dest_provider.create_folder(dest_path, folder_precheck=False)
  dest_path = await dest_provider.revalidate_path(dest_path.parent, dest_path.name,
                                                  folder=dest_path.is_dir)
  folder.children = []
  items = await self.metadata(src_path)
  for i in range(0, len(items), settings.OP_CONCURRENCY): ...
  return folder, created
  \<close>
  \<open>len\<close> of a single metadata object is a \<open>TypeError\<close>, a step of zero is a
  \<open>ValueError\<close> of \<open>range\<close>, and a negative step gives no batch.
\<close>

definition populate ::
  "int \<Rightarrow> 'b provider \<Rightarrow> ('b provider \<Rightarrow> nat \<Rightarrow> nat \<Rightarrow> 'b world \<Rightarrow> 'b transfer) \<Rightarrow> 'b provider
     \<Rightarrow> nat \<Rightarrow> nat \<Rightarrow> 'b world \<Rightarrow> ((exn + metadata) \<times> 'b world) option" where
  "populate OP_CONCURRENCY self func dest_provider src_path dest_path w =
     (case create_folder dest_provider (heap w dest_path) (backend w) of
        (Inl e, b) \<Rightarrow> Some (Inl e, w\<lparr>backend := b\<rparr>)
      | (Inr folder, b) \<Rightarrow>
          (let w1 = w\<lparr>backend := b\<rparr>
           in case parent (heap w1 dest_path) of
                None \<Rightarrow> Some (Inl AttributeError, w1)
              | Some base \<Rightarrow>
                  (let (dest_path, w2) =
                         revalidate_path base (name (heap w1 dest_path))
                           (is_dir (heap w1 dest_path)) w1
                   in case metadata self (backend w2) (heap w2 src_path) of
                        Inl e \<Rightarrow> Some (Inl e, w2)
                      | Inr (Single _) \<Rightarrow> Some (Inl TypeError, w2)
                      | Inr (Listing items) \<Rightarrow>
                          if OP_CONCURRENCY = 0 then Some (Inl ValueError, w2)
                          else
                            (case run_batches func dest_provider src_path dest_path
                                    (batches (nat OP_CONCURRENCY) items) [] w2 of
                               None \<Rightarrow> None
                             | Some (Inl e, w3) \<Rightarrow> Some (Inl e, w3)
                             | Some (Inr ms, w3) \<Rightarrow>
                                 Some (Inr (Metadata (md_name folder) (is_folder folder) ms),
                                       w3)))))"

definition folder_file_op ::
  "int \<Rightarrow> 'b provider \<Rightarrow> ('b provider \<Rightarrow> nat \<Rightarrow> nat \<Rightarrow> 'b world \<Rightarrow> 'b transfer) \<Rightarrow> 'b provider
     \<Rightarrow> nat \<Rightarrow> nat \<Rightarrow> 'b world \<Rightarrow> 'b transfer" where
  "folder_file_op OP_CONCURRENCY self func dest_provider src_path dest_path w =
     (if \<not> is_dir (heap w src_path) then Some (Inl AssertionError, w)
      else
        case delete_dest dest_provider dest_path w of
          (Inl e, w1) \<Rightarrow> Some (Inl e, w1)
        | (Inr created, w1) \<Rightarrow>
            (case populate OP_CONCURRENCY self func dest_provider src_path dest_path w1 of
               None \<Rightarrow> None
             | Some (Inl e, w2) \<Rightarrow> Some (Inl e, w2)
             | Some (Inr folder, w2) \<Rightarrow> Some (Inr (folder, created), w2)))"

section \<open>The transfer orchestrator: \<open>copy\<close> and \<open>move\<close>\<close>

text \<open>
  The first argument bounds the depth of the recursion into folders; \<open>None\<close> is a
  transfer that does not return within it. The children of a folder are transferred with
  \<open>handle_naming=False\<close> and the defaults of \<open>rename\<close> and \<open>conflict\<close>.
\<close>

definition with_naming ::
  "bool \<Rightarrow> 'b provider \<Rightarrow> nat \<Rightarrow> nat \<Rightarrow> string option \<Rightarrow> string \<Rightarrow> 'b world
     \<Rightarrow> ((exn + nat) \<times> 'b world) option" where
  "with_naming naming dest_provider src_path dest_path rename conflict w =
     (if naming then handle_naming dest_provider src_path dest_path rename conflict w
      else Some (Inr dest_path, w))"

text \<open>
  \<^verbatim>\<open>
  download_stream = await self.download(src_path)
  if getattr(download_stream, 'name', None):
      dest_path.rename(download_stream.name)
  return (await dest_provider.upload(download_stream, dest_path))
  \<close>
\<close>

definition copy_file :: "'b provider \<Rightarrow> 'b provider \<Rightarrow> nat \<Rightarrow> nat \<Rightarrow> 'b world \<Rightarrow> 'b transfer" where
  "copy_file self dest_provider src_path dest_path w =
     (case download self (backend w) (heap w src_path) of
        Inl e \<Rightarrow> Some (Inl e, w)
      | Inr download_stream \<Rightarrow>
          (let w1 = (case stream_name download_stream of
                       None \<Rightarrow> w
                     | Some nm \<Rightarrow>
                         if nm = [] then w
                         else w\<lparr>heap := (heap w)(dest_path := rename_path (heap w dest_path) nm)\<rparr>)
           in case upload dest_provider download_stream (heap w1 dest_path) (backend w1) of
                (r, b) \<Rightarrow> Some (r, w1\<lparr>backend := b\<rparr>)))"

text \<open>
  \<^verbatim>\<open>
  if handle_naming:
      dest_path = await dest_provider.handle_naming(src_path, dest_path, rename=rename,
                                                    conflict=conflict)
  if self.can_intra_copy(dest_provider, src_path):
      return (await self.intra_copy(*args))
  if src_path.is_dir:
      return (await self._folder_file_op(self.copy, *args, **kwargs))
  \<close>
\<close>

primrec copy ::
  "nat \<Rightarrow> int \<Rightarrow> 'b provider \<Rightarrow> 'b provider \<Rightarrow> nat \<Rightarrow> nat \<Rightarrow> string option \<Rightarrow> string \<Rightarrow> bool
     \<Rightarrow> 'b world \<Rightarrow> 'b transfer" where
  "copy 0 = (\<lambda>OP_CONCURRENCY self dest_provider src_path dest_path rename conflict naming w. None)"
| "copy (Suc n) =
     (\<lambda>OP_CONCURRENCY self dest_provider src_path dest_path rename conflict naming w.
        case with_naming naming dest_provider src_path dest_path rename conflict w of
          None \<Rightarrow> None
        | Some (Inl e, w1) \<Rightarrow> Some (Inl e, w1)
        | Some (Inr dest_path, w1) \<Rightarrow>
            if can_intra_copy self (NAME dest_provider) (heap w1 src_path)
            then (case intra_copy self (NAME dest_provider) (heap w1 src_path)
                         (heap w1 dest_path) (backend w1) of
                    (r, b) \<Rightarrow> Some (r, w1\<lparr>backend := b\<rparr>))
            else if is_dir (heap w1 src_path)
            then folder_file_op OP_CONCURRENCY self
                   (\<lambda>dest_provider src_path dest_path.
                      copy n OP_CONCURRENCY self dest_provider src_path dest_path
                        None ''replace'' False)
                   dest_provider src_path dest_path w1
            else copy_file self dest_provider src_path dest_path w1)"






section \<open>An in-memory backend\<close>

text \<open>
  A backend that keeps its nodes in a list: the names of the segments of a node, whether
  it is a folder, and the data of a file. It overrides \<open>create_folder\<close> and keeps the
  defaults of the base class for the fast paths (\<open>can_intra_copy\<close> and
  \<open>can_intra_move\<close> return \<open>False\<close>, \<open>intra_copy\<close> raises
  \<open>NotImplementedError\<close>). \<open>suggest\<close> gives the filename that the download stream
  of a node carries, if any; an upload to a name in \<open>rejected\<close> fails.
\<close>

type_synonym memfs = "(string list \<times> bool \<times> string) list"

definition key :: "path \<Rightarrow> string list" where
  "key p = map part_value (parts p)"

definition mem_metadata :: "memfs \<Rightarrow> path \<Rightarrow> exn + listing" where
  "mem_metadata b p =
     (case map_of b (key p) of
        None \<Rightarrow> Inl NotFoundError
      | Some (folder, _) \<Rightarrow>
          if folder
          then Inr (Listing (map (\<lambda>(k, f, _). Metadata (last k) f [])
                              (filter (\<lambda>(k, _). k \<noteq> [] \<and> butlast k = key p) b)))
          else Inr (Single (Metadata (name p) False [])))"

definition mem_download :: "(string list \<Rightarrow> string option) \<Rightarrow> memfs \<Rightarrow> path \<Rightarrow> exn + stream" where
  "mem_download suggest b p =
     (case map_of b (key p) of
        None \<Rightarrow> Inl NotFoundError
      | Some (folder, d) \<Rightarrow>
          if folder then Inl (DownloadError 400)
          else Inr \<lparr>stream_name = suggest (key p), stream_data = d\<rparr>)"

definition mem_upload ::
  "string list \<Rightarrow> stream \<Rightarrow> path \<Rightarrow> memfs \<Rightarrow> (exn + metadata \<times> bool) \<times> memfs" where
  "mem_upload rejected s p b =
     (if name p \<in> set rejected then (Inl (UploadError 507), b)
      else (Inr (Metadata (name p) False [], map_of b (key p) = None),
            filter (\<lambda>(k, _). k \<noteq> key p) b @ [(key p, False, stream_data s)]))"

definition mem_delete :: "path \<Rightarrow> memfs \<Rightarrow> (exn + unit) \<times> memfs" where
  "mem_delete p b =
     (case map_of b (key p) of
        None \<Rightarrow> (Inl NotFoundError, b)
      | Some _ \<Rightarrow> (Inr (), filter (\<lambda>(k, _). take (length (key p)) k \<noteq> key p) b))"

definition mem_create_folder :: "path \<Rightarrow> memfs \<Rightarrow> (exn + metadata) \<times> memfs" where
  "mem_create_folder p b = (Inr (Metadata (name p) True []), b @ [(key p, True, [])])"

definition memfs_provider ::
  "string \<Rightarrow> (string list \<Rightarrow> string option) \<Rightarrow> string list \<Rightarrow> memfs provider" where
  "memfs_provider nm suggest rejected =
     \<lparr>NAME = nm, metadata = mem_metadata, download = mem_download suggest,
      upload = mem_upload rejected, delete = mem_delete, create_folder = mem_create_folder,
      can_intra_copy = (\<lambda>_ _. False), can_intra_move = (\<lambda>_ _. False),
      intra_copy = (\<lambda>_ _ _ b. (Inl NotImplementedError, b))\<rparr>"

text \<open>The path object for a sequence of segment names below the root.\<close>

definition path_of :: "string list \<Rightarrow> bool \<Rightarrow> path" where
  "path_of segs folder = \<lparr>parts = map (\<lambda>s. mk_part s None) ([] # segs), is_dir = folder\<rparr>"

text \<open>A world whose store holds the given path objects at the addresses \<open>0, 1, ...\<close>.\<close>

definition world_of :: "path list \<Rightarrow> 'b \<Rightarrow> 'b world" where
  "world_of ps b =
     \<lparr>heap = (\<lambda>a. if a < length ps then ps ! a else root), next_addr = length ps, backend = b\<rparr>"


text \<open>
  A small instance: the files \<open>/a.txt\<close> and \<open>/a (1).txt\<close> and the empty folder
  \<open>/dir/\<close>; the store holds path objects for \<open>/a.txt\<close>, \<open>/dir/\<close> and
  \<open>/b.txt\<close>, which does not exist.
\<close>

definition demo_fs :: memfs where
  "demo_fs =
     [([[]], True, []), ([[], ''a.txt''], False, ''hello''),
      ([[], ''a (1).txt''], False, ''again''), ([[], ''dir''], True, [])]"

definition demo :: "memfs provider" where
  "demo = memfs_provider ''memory'' (\<lambda>_. None) []"

definition demo_world :: "memfs world" where
  "demo_world =
     world_of [path_of [''a.txt''] False, path_of [''dir''] True, path_of [''b.txt''] False]
       demo_fs"

text \<open>
  A second instance, for transfers: the folder \<open>/src/\<close> with the files \<open>a.txt\<close>
  and \<open>b.txt\<close>, the empty folder \<open>/dst/\<close> and the file \<open>/c.txt\<close>, whose
  download stream suggests the name \<open>d.txt\<close>. The provider \<open>strict\<close> refuses the
  upload of any file named \<open>b.txt\<close>.
\<close>

definition tree_fs :: memfs where
  "tree_fs =
     [([[]], True, []), ([[], ''src''], True, []), ([[], ''src'', ''a.txt''], False, ''A''),
      ([[], ''src'', ''b.txt''], False, ''B''), ([[], ''dst''], True, []),
      ([[], ''c.txt''], False, ''C'')]"

definition suggest_d :: "string list \<Rightarrow> string option" where
  "suggest_d k = (if k = [[], ''c.txt''] then Some ''d.txt'' else None)"

definition lenient :: "memfs provider" where
  "lenient = memfs_provider ''memory'' suggest_d []"


definition tree_world :: "memfs world" where
  "tree_world =
     world_of [path_of [''src''] True, path_of [''dst''] True, path_of [''new''] True,
               path_of [''c.txt''] False, path_of [''e.txt''] False,
               path_of [''src'', ''b.txt''] False]
       tree_fs"

text \<open>What a transfer returned or raised, and the state of the backend it left.\<close>

definition outcome_of :: "'b transfer \<Rightarrow> (exn + metadata \<times> bool) option" where
  "outcome_of t = map_option fst t"



text \<open>The result of populating the destination folder, paired with the flag \<open>created\<close>.\<close>

definition with_created ::
  "bool \<Rightarrow> ((exn + metadata) \<times> 'b world) option \<Rightarrow> 'b transfer" where
  "with_created created t =
     (case t of
        None \<Rightarrow> None
      | Some (Inl e, w) \<Rightarrow> Some (Inl e, w)
      | Some (Inr folder, w) \<Rightarrow> Some (Inr (folder, created), w))"

text \<open>
  What a call leaves of the store: the objects at the addresses in use, other than
  \<open>path\<close>, are as they were, no object in use changes its \<open>is_dir\<close>, addresses are
  only added, and the backend is as it was.
\<close>

definition frame :: "nat \<Rightarrow> 'b world \<Rightarrow> 'b world \<Rightarrow> bool" where
  "frame path w w' \<longleftrightarrow>
     (\<forall>a<next_addr w. a \<noteq> path \<longrightarrow> heap w' a = heap w a)
   \<and> (\<forall>a<next_addr w. is_dir (heap w' a) = is_dir (heap w a))
   \<and> next_addr w \<le> next_addr w' \<and> backend w' = backend w"











section \<open>The retry schedule of the request gateway\<close>

lemma make_request_loop_inv:
  assumes "make_request_loop retry_on expects attempt r0 retry i sleeps = (res, sl)"
    and "0 \<le> retry" and "retry \<le> r0" and "int i = r0 - retry"
    and "sleeps = map (\<lambda>j. 2 * (int j + 1)) [0..<i]"
  shows "length sl \<le> nat r0 \<and> i \<le> length sl
       \<and> sl = map (\<lambda>j. 2 * (int j + 1)) [0..<length sl]
       \<and> (\<forall>j. i \<le> j \<and> j < length sl \<longrightarrow>
             (\<exists>c. failure_code expects (attempt j) = Some c \<and> c \<in> retry_on))
       \<and> (case try_attempt expects (attempt (length sl)) of
             Inr x \<Rightarrow> res = x
           | Inl c \<Rightarrow> res = Error c \<and> (c \<notin> retry_on \<or> length sl = nat r0))"
  using assms
proof (induction retry_on expects attempt r0 retry i sleeps rule: make_request_loop.induct)
  case (1 retry_on expects attempt retry0 retry i sleeps)
  note eq = "1.prems"(1)
  have len: "length sleeps = i" using "1.prems"(5) by simp
  show ?case
  proof (cases "try_attempt expects (attempt i)")
    case (Inr x)
    with eq "1.prems" have "res = x" "sl = sleeps"
      by (simp_all add: make_request_loop.simps)
    with Inr len "1.prems" show ?thesis by auto
  next
    case (Inl c)
    show ?thesis
    proof (cases "retry \<le> 0 \<or> c \<notin> retry_on")
      case True
      with eq Inl "1.prems" have "res = Error c" "sl = sleeps"
        by (simp_all add: make_request_loop.simps)
      with Inl len True "1.prems" show ?thesis by auto
    next
      case False
      have step: "make_request_loop retry_on expects attempt retry0 (retry - 1) (Suc i)
                    (sleeps @ [(1 + retry0 - retry) * 2]) = (res, sl)"
        using eq Inl False "1.prems"(2) by (simp add: make_request_loop.simps)
      have sl': "sleeps @ [(1 + retry0 - retry) * 2] = map (\<lambda>j. 2 * (int j + 1)) [0..<Suc i]"
        using "1.prems"(4,5) by simp
      have IH: "length sl \<le> nat retry0 \<and> Suc i \<le> length sl
       \<and> sl = map (\<lambda>j. 2 * (int j + 1)) [0..<length sl]
       \<and> (\<forall>j. Suc i \<le> j \<and> j < length sl \<longrightarrow>
             (\<exists>c. failure_code expects (attempt j) = Some c \<and> c \<in> retry_on))
       \<and> (case try_attempt expects (attempt (length sl)) of
             Inr x \<Rightarrow> res = x
           | Inl c \<Rightarrow> res = Error c \<and> (c \<notin> retry_on \<or> length sl = nat retry0))"
        using "1.IH"[OF "1.prems"(2) Inl False step _ _ _ sl'] False "1.prems" by simp
      have here: "failure_code expects (attempt i) = Some c \<and> c \<in> retry_on"
        using Inl False by (simp add: failure_code_def)
      have "\<forall>j. i \<le> j \<and> j < length sl \<longrightarrow>
             (\<exists>c. failure_code expects (attempt j) = Some c \<and> c \<in> retry_on)"
      proof (intro allI impI)
        fix j assume "i \<le> j \<and> j < length sl"
        then consider "j = i" | "Suc i \<le> j \<and> j < length sl" by linarith
        then show "\<exists>c. failure_code expects (attempt j) = Some c \<and> c \<in> retry_on"
          using here IH by cases auto
      qed
      with IH show ?thesis by simp
    qed
  qed
qed

text \<open>
  Claim C2. A call of \<open>make_request\<close> with a retry budget \<open>r \<ge> 0\<close> that ends after
  \<open>k\<close> sleeps has slept \<open>2, 4, ..., 2k\<close> seconds, in this order, with \<open>k \<le> r\<close>:
  two seconds times the index of the retry. Each of the attempts \<open>0, ..., k - 1\<close>
  failed with an error whose code is in \<open>retry_on\<close>. Attempt \<open>k\<close> ended the call with
  no sleep after it: either it did not fail with an error of kind \<open>throws\<close> and its
  outcome is the result, or its error is the result and then its code is not in
  \<open>retry_on\<close> or the budget is used up (\<open>k = r\<close>).
\<close>

theorem make_request_retry_schedule:
  assumes "0 \<le> r" and "make_request retry_on expects attempt r = (res, sleeps)"
  shows "length sleeps \<le> nat r
       \<and> sleeps = map (\<lambda>j. 2 * (int j + 1)) [0..<length sleeps]
       \<and> (\<forall>j<length sleeps. \<exists>c. failure_code expects (attempt j) = Some c \<and> c \<in> retry_on)
       \<and> (case try_attempt expects (attempt (length sleeps)) of
             Inr x \<Rightarrow> res = x
           | Inl c \<Rightarrow> res = Error c \<and> (c \<notin> retry_on \<or> length sleeps = nat r))"
  using make_request_loop_inv[of retry_on expects attempt r r 0 "[]" res sleeps] assms
  by (simp add: make_request_def)

theorem make_request_retry_schedule_witness:
  "(0::int) \<le> 2
 \<and> make_request default_retry_on None (\<lambda>i. if i < 2 then RaisesThrows 503 else Returns 200) 2
     = (Response 200, [2, 4])
 \<and> [2, 4] = map (\<lambda>j. 2 * (int j + 1)) [0..<length [2, 4 :: int]]
 \<and> failure_code None (RaisesThrows 503) = Some 503 \<and> 503 \<in> default_retry_on"
proof -
  have eq: "make_request default_retry_on None
              (\<lambda>i. if i < 2 then RaisesThrows 503 else Returns 200) 2 = (Response 200, [2, 4])"
    by code_simp
  have "[2, 4] = map (\<lambda>j. 2 * (int j + 1)) [0..<length [2, 4 :: int]]"
    using make_request_retry_schedule[OF _ eq] by simp
  moreover have "failure_code None (RaisesThrows 503) = Some 503"
    by (simp add: failure_code_def try_attempt_def)
  ultimately show ?thesis using eq by (simp add: default_retry_on_def)
qed


section \<open>Existence and the conflict policies\<close>

lemma exists_cases:
  "exists self b p =
     (case metadata self b p of
        Inr m \<Rightarrow> Inr (Found m)
      | Inl e \<Rightarrow> if e = NotFoundError \<or> e = MetadataError 404 then Inr PyFalse else Inl e)"
  by (auto simp: exists_def split: sum.splits exn.splits)

lemma exists_not_naming_conflict:
  assumes "\<forall>b p q. metadata self b p \<noteq> Inl (NamingConflict q)"
  shows "exists self b p \<noteq> Inl (NamingConflict q)"
  using assms by (auto simp: exists_cases split: sum.splits)

lemma keep_loop_not_naming_conflict:
  assumes "keep_loop self path w = Some y"
    and "\<forall>b p q. metadata self b p \<noteq> Inl (NamingConflict q)"
  shows "fst y \<noteq> Inl (NamingConflict q)"
proof -
  have "(\<forall>b p q. metadata self b p \<noteq> Inl (NamingConflict q)) \<longrightarrow> fst y \<noteq> Inl (NamingConflict q)"
  proof (rule keep_loop.raw_induct[where P = "\<lambda>s p w y.
            (\<forall>b p q. metadata s b p \<noteq> Inl (NamingConflict q)) \<longrightarrow> fst y \<noteq> Inl (NamingConflict q)"])
    show "keep_loop self path w = Some y" by (rule assms(1))
  next
    fix kl :: "'a provider \<Rightarrow> nat \<Rightarrow> 'a world \<Rightarrow> ((exn + nat \<times> existence) \<times> 'a world) option"
    fix s p w y
    assume IH: "\<And>s p w y. kl s p w = Some y \<Longrightarrow>
                 (\<forall>b p q. metadata s b p \<noteq> Inl (NamingConflict q)) \<longrightarrow> fst y \<noteq> Inl (NamingConflict q)"
    assume step: "(let w1 = w\<lparr>heap := (heap w)(p := increment_name (heap w p))\<rparr>
      in case parent (heap w1 p) of None \<Rightarrow> Some (Inl AttributeError, w1)
         | Some base \<Rightarrow>
             let (test_path, w2) =
                   revalidate_path base (name (heap w1 p)) (is_dir (heap w1 p)) w1
             in case exists s (backend w2) (heap w2 test_path) of
                Inl e \<Rightarrow> Some (Inl e, w2)
                | Inr ex \<Rightarrow>
                    if \<not> (truthy ex \<or> eq_empty_list ex)
                    then Some (Inr (p, PyFalse), w2)
                    else kl s p w2) = Some y"
    show "(\<forall>b p q. metadata s b p \<noteq> Inl (NamingConflict q)) \<longrightarrow> fst y \<noteq> Inl (NamingConflict q)"
    proof
      assume md: "\<forall>b p q. metadata s b p \<noteq> Inl (NamingConflict q)"
      have ex: "\<And>b p. exists s b p \<noteq> Inl (NamingConflict q)"
        using exists_not_naming_conflict[OF md] by blast
      from step md ex IH show "fst y \<noteq> Inl (NamingConflict q)"
        by (auto simp: Let_def split: option.splits prod.splits sum.splits if_splits)
    qed
  qed
  with assms(2) show ?thesis by blast
qed

lemma demo_metadata_not_naming_conflict:
  "\<forall>b p q. metadata demo b p \<noteq> Inl (NamingConflict q)"
  by (simp add: demo_def memfs_provider_def mem_metadata_def split: option.splits prod.splits)

text \<open>
  Claim C5. For a backend whose \<open>metadata\<close> does not itself raise a naming conflict,
  \<open>handle_name_conflict\<close> raises \<open>NamingConflict\<close> if and only if the policy is
  \<open>warn\<close> and the existence check of the path is positive (a truthy result, or the
  empty listing of an empty folder); the error carries the path. Under every other
  policy, \<open>replace\<close> and \<open>keep\<close> among them, it does not raise it.
\<close>

theorem naming_conflict_iff_warn:
  assumes "\<forall>b p q. metadata self b p \<noteq> Inl (NamingConflict q)"
  shows "(\<exists>w'. handle_name_conflict self path conflict w = Some (Inl (NamingConflict q), w'))
     \<longleftrightarrow> conflict = ''warn'' \<and> q = heap w path
         \<and> (\<exists>ex. exists self (backend w) (heap w path) = Inr ex
                \<and> (truthy ex \<or> eq_empty_list ex))"
proof (cases "exists self (backend w) (heap w path)")
  case (Inl e)
  with exists_not_naming_conflict[OF assms, of "backend w" "heap w path" q]
  show ?thesis by (auto simp: handle_name_conflict_def)
next
  case (Inr ex)
  show ?thesis
  proof (cases "(\<not> truthy ex \<and> \<not> eq_empty_list ex) \<or> conflict = ''replace''")
    case True
    with Inr show ?thesis by (auto simp: handle_name_conflict_def)
  next
    case False
    show ?thesis
    proof (cases "conflict = ''warn''")
      case True
      with Inr False show ?thesis by (auto simp: handle_name_conflict_def)
    next
      case nw: False
      have "handle_name_conflict self path conflict w = keep_loop self path w"
        using Inr False nw by (auto simp: handle_name_conflict_def)
      with keep_loop_not_naming_conflict[of self path w _ q] assms nw
      show ?thesis by auto
    qed
  qed
qed

theorem naming_conflict_iff_warn_witness:
  "(\<forall>b p q. metadata demo b p \<noteq> Inl (NamingConflict q))
 \<and> (\<exists>w'. handle_name_conflict demo 0 ''warn'' demo_world
           = Some (Inl (NamingConflict (path_of [''a.txt''] False)), w'))
 \<and> (\<nexists>w'. handle_name_conflict demo 0 ''keep'' demo_world
           = Some (Inl (NamingConflict (path_of [''a.txt''] False)), w'))
 \<and> (\<nexists>w'. handle_name_conflict demo 2 ''warn'' demo_world
           = Some (Inl (NamingConflict (path_of [''b.txt''] False)), w'))"
proof -
  have e0: "exists demo (backend demo_world) (heap demo_world 0)
              = Inr (Found (Single (Metadata ''a.txt'' False [])))"
    by code_simp
  have e2: "exists demo (backend demo_world) (heap demo_world 2) = Inr PyFalse"
    by code_simp
  have h0: "heap demo_world 0 = path_of [''a.txt''] False"
    by (simp add: demo_world_def world_of_def)
  have h2: "heap demo_world 2 = path_of [''b.txt''] False"
    by (simp add: demo_world_def world_of_def)
  note md = demo_metadata_not_naming_conflict
  from naming_conflict_iff_warn[OF md, of 0 "''warn''" demo_world "path_of [''a.txt''] False"]
       naming_conflict_iff_warn[OF md, of 0 "''keep''" demo_world "path_of [''a.txt''] False"]
       naming_conflict_iff_warn[OF md, of 2 "''warn''" demo_world "path_of [''b.txt''] False"]
       e0 e2 h0 h2 md
  show ?thesis by simp
qed

text \<open>
  Claim C6. \<open>exists\<close> returns what \<open>metadata\<close> returns, turns \<open>NotFoundError\<close>
  and a \<open>MetadataError\<close> of code 404 into \<open>False\<close>, and lets every other error
  through. When \<open>metadata\<close> answers with the empty listing of an empty folder, the node
  counts as existing in \<open>handle_name_conflict\<close>: under \<open>warn\<close> the call fails with
  the naming conflict, and under \<open>keep\<close> (any policy other than \<open>replace\<close> and
  \<open>warn\<close>) the name is incremented by the loop.
\<close>

theorem exists_swallows_not_found_only:
  assumes "metadata self (backend w) (heap w path) = Inr (Listing [])"
  shows "exists self b p =
           (case metadata self b p of
              Inr m \<Rightarrow> Inr (Found m)
            | Inl e \<Rightarrow> if e = NotFoundError \<or> e = MetadataError 404 then Inr PyFalse else Inl e)
       \<and> handle_name_conflict self path conflict w =
           (if conflict = ''replace'' then Some (Inr (path, Found (Listing [])), w)
            else if conflict = ''warn'' then Some (Inl (NamingConflict (heap w path)), w)
            else keep_loop self path w)"
  using assms by (simp add: exists_cases handle_name_conflict_def)

theorem exists_swallows_not_found_only_witness:
  "metadata demo (backend demo_world) (heap demo_world 1) = Inr (Listing [])
 \<and> handle_name_conflict demo 1 ''warn'' demo_world
      = Some (Inl (NamingConflict (heap demo_world 1)), demo_world)
 \<and> handle_name_conflict demo 1 ''keep'' demo_world = keep_loop demo 1 demo_world
 \<and> map_option (\<lambda>(r, w). (r, name (heap w 1))) (keep_loop demo 1 demo_world)
      = Some (Inr (1, PyFalse), ''dir (1)'')
 \<and> metadata demo demo_fs (path_of [''b.txt''] False) = Inl NotFoundError
 \<and> exists demo demo_fs (path_of [''b.txt''] False) = Inr PyFalse"
proof -
  have m: "metadata demo (backend demo_world) (heap demo_world 1) = Inr (Listing [])"
    by code_simp
  have nf: "metadata demo demo_fs (path_of [''b.txt''] False) = Inl NotFoundError"
    by code_simp
  have k: "map_option (\<lambda>(r, w). (r, name (heap w 1))) (keep_loop demo 1 demo_world)
      = Some (Inr (1, PyFalse), ''dir (1)'')"
    by code_simp
  from exists_swallows_not_found_only[OF m, of demo_fs "path_of [''b.txt''] False" "''warn''"]
       exists_swallows_not_found_only[OF m, of demo_fs "path_of [''b.txt''] False" "''keep''"]
       m nf k
  show ?thesis by simp
qed

text \<open>
  Claim C9. Under the policy \<open>replace\<close>, whatever the existence check returns,
  \<open>handle_name_conflict\<close> returns the very path object it was given, paired with the
  result of the existence check, and changes nothing.
\<close>

theorem replace_returns_path:
  assumes "exists self (backend w) (heap w path) = Inr ex"
  shows "handle_name_conflict self path ''replace'' w = Some (Inr (path, ex), w)"
  using assms by (simp add: handle_name_conflict_def)

theorem replace_returns_path_witness:
  "exists demo (backend demo_world) (heap demo_world 0)
     = Inr (Found (Single (Metadata ''a.txt'' False [])))
 \<and> handle_name_conflict demo 0 ''replace'' demo_world
     = Some (Inr (0, Found (Single (Metadata ''a.txt'' False []))), demo_world)
 \<and> exists demo (backend demo_world) (heap demo_world 2) = Inr PyFalse
 \<and> handle_name_conflict demo 2 ''replace'' demo_world = Some (Inr (2, PyFalse), demo_world)"
proof -
  have e0: "exists demo (backend demo_world) (heap demo_world 0)
              = Inr (Found (Single (Metadata ''a.txt'' False [])))"
    by code_simp
  have e2: "exists demo (backend demo_world) (heap demo_world 2) = Inr PyFalse"
    by code_simp
  from replace_returns_path[OF e0] replace_returns_path[OF e2] e0 e2 show ?thesis by simp
qed

section \<open>The names of the \<open>keep\<close> policy\<close>

lemma digit_char_inj: "a < 10 \<Longrightarrow> b < 10 \<Longrightarrow> digit_char a = digit_char b \<Longrightarrow> a = b"
proof -
  assume a: "a < 10" and b: "b < 10" and eq: "digit_char a = digit_char b"
  have d: "distinct ''0123456789''" by simp
  have "length ''0123456789'' = 10" by simp
  with a b eq d show "a = b"
    unfolding digit_char_def by (metis nth_eq_iff_index_eq)
qed

lemma decimal_nonempty: "decimal n \<noteq> []"
  by (subst decimal.simps) simp

lemma decimal_inj: "decimal n = decimal m \<Longrightarrow> n = m"
proof (induction n arbitrary: m rule: decimal.induct)
  case (1 n)
  show ?case
  proof (cases "n < 10")
    case True
    then have dn: "decimal n = [digit_char n]" by (subst decimal.simps) simp
    show ?thesis
    proof (cases "m < 10")
      case m: True
      then have "decimal m = [digit_char m]" by (subst decimal.simps) simp
      with dn "1.prems" True m show ?thesis by (simp add: digit_char_inj)
    next
      case m: False
      then have "decimal m = decimal (m div 10) @ [digit_char (m mod 10)]"
        by (subst decimal.simps) simp
      with dn "1.prems" decimal_nonempty[of "m div 10"] show ?thesis by simp
    qed
  next
    case False
    then have dn: "decimal n = decimal (n div 10) @ [digit_char (n mod 10)]"
      by (subst decimal.simps) simp
    show ?thesis
    proof (cases "m < 10")
      case m: True
      then have "decimal m = [digit_char m]" by (subst decimal.simps) simp
      with dn "1.prems" decimal_nonempty[of "n div 10"] show ?thesis by simp
    next
      case m: False
      then have dm: "decimal m = decimal (m div 10) @ [digit_char (m mod 10)]"
        by (subst decimal.simps) simp
      from dn dm "1.prems" have a: "decimal (n div 10) = decimal (m div 10)"
        and b: "digit_char (n mod 10) = digit_char (m mod 10)" by simp_all
      from "1.IH"[OF False a] have "n div 10 = m div 10" .
      moreover from b have "n mod 10 = m mod 10" by (simp add: digit_char_inj)
      ultimately show ?thesis by (metis div_mult_mod_eq)
    qed
  qed
qed

lemma part_value_count_inj:
  assumes "part_name p = part_name q" and "part_ext p = part_ext q"
    and "part_value p = part_value q"
  shows "part_count p = part_count q"
proof (cases "part_count p = 0")
  case True
  show ?thesis
  proof (cases "part_count q = 0")
    case q: True
    with True show ?thesis by simp
  next
    case q: False
    from assms True q have "length (part_value p) \<noteq> length (part_value q)"
      by (simp add: part_value_def)
    with assms(3) show ?thesis by simp
  qed
next
  case False
  show ?thesis
  proof (cases "part_count q = 0")
    case q: True
    from assms False q have "length (part_value p) \<noteq> length (part_value q)"
      by (simp add: part_value_def)
    with assms(3) show ?thesis by simp
  next
    case q: False
    from assms False q have "decimal (part_count p) = decimal (part_count q)"
      by (simp add: part_value_def)
    then show ?thesis by (rule decimal_inj)
  qed
qed

lemma increment_name_snoc:
  "parts p = xs @ [q] \<Longrightarrow> increment_name p = p\<lparr>parts := xs @ [increment_part q]\<rparr>"
  by (simp add: increment_name_def)

lemma increment_name_funpow:
  assumes "parts p = xs @ [q]"
  shows "(increment_name ^^ j) p =
           (if j = 0 then p
            else p\<lparr>parts := xs @ [q\<lparr>part_count := part_count q + j, part_id := None\<rparr>]\<rparr>)"
proof (induction j)
  case 0
  show ?case by simp
next
  case (Suc j)
  show ?case
  proof (cases "j = 0")
    case True
    with assms show ?thesis
      by (simp add: increment_name_snoc increment_part_def)
  next
    case False
    define p' where "p' = p\<lparr>parts := xs @ [q\<lparr>part_count := part_count q + j, part_id := None\<rparr>]\<rparr>"
    have "parts p' = xs @ [q\<lparr>part_count := part_count q + j, part_id := None\<rparr>]"
      by (simp add: p'_def)
    from increment_name_snoc[OF this] have "increment_name p' =
       p\<lparr>parts := xs @ [q\<lparr>part_count := Suc (part_count q + j), part_id := None\<rparr>]\<rparr>"
      by (simp add: p'_def increment_part_def)
    with Suc False show ?thesis by (simp add: p'_def)
  qed
qed

lemma name_snoc: "parts p = xs @ [q] \<Longrightarrow> name p = part_value q"
  by (simp add: name_def)

lemma name_funpow_distinct:
  assumes "parts p \<noteq> []" and "i \<noteq> j"
  shows "name ((increment_name ^^ i) p) \<noteq> name ((increment_name ^^ j) p)"
proof
  assume eq: "name ((increment_name ^^ i) p) = name ((increment_name ^^ j) p)"
  define q where "q = last (parts p)"
  define xs where "xs = butlast (parts p)"
  have ps: "parts p = xs @ [q]" using assms(1) by (simp add: q_def xs_def)
  define qi where "qi = (if i = 0 then q else q\<lparr>part_count := part_count q + i, part_id := None\<rparr>)"
  define qj where "qj = (if j = 0 then q else q\<lparr>part_count := part_count q + j, part_id := None\<rparr>)"
  have "parts ((increment_name ^^ i) p) = xs @ [qi]"
    using ps by (simp add: increment_name_funpow[OF ps] qi_def)
  then have ni: "name ((increment_name ^^ i) p) = part_value qi" by (rule name_snoc)
  have "parts ((increment_name ^^ j) p) = xs @ [qj]"
    using ps by (simp add: increment_name_funpow[OF ps] qj_def)
  then have nj: "name ((increment_name ^^ j) p) = part_value qj" by (rule name_snoc)
  have "part_count qi = part_count qj"
    by (rule part_value_count_inj) (use eq ni nj in \<open>auto simp: qi_def qj_def\<close>)
  with assms(2) show False by (auto simp: qi_def qj_def split: if_splits)
qed

lemma parent_increment_name: "parent (increment_name p) = parent p"
  by (simp add: increment_name_def parent_def)

lemma is_dir_increment_name: "is_dir (increment_name p) = is_dir p"
  by (simp add: increment_name_def)

lemma parent_funpow: "parent ((increment_name ^^ j) p) = parent p"
  by (induction j) (simp_all add: parent_increment_name)

lemma is_dir_funpow: "is_dir ((increment_name ^^ j) p) = is_dir p"
  by (induction j) (simp_all add: is_dir_increment_name)

lemma keep_loop_finds:
  assumes par: "parent p0 = Some base"
    and free: "exists self b (child base (name ((increment_name ^^ k) p0)) (is_dir p0)) = Inr exk"
              "\<not> (truthy exk \<or> eq_empty_list exk)"
    and taken: "\<forall>j. 0 < j \<and> j < k \<longrightarrow>
                  (\<exists>ex. exists self b (child base (name ((increment_name ^^ j) p0)) (is_dir p0)) = Inr ex
                        \<and> (truthy ex \<or> eq_empty_list ex))"
  shows "i < k \<Longrightarrow> heap w path = (increment_name ^^ i) p0 \<Longrightarrow> backend w = b \<Longrightarrow>
         path < next_addr w \<Longrightarrow>
         \<exists>w'. keep_loop self path w = Some (Inr (path, PyFalse), w')
             \<and> heap w' path = (increment_name ^^ k) p0 \<and> backend w' = b
             \<and> (\<forall>a<next_addr w. a \<noteq> path \<longrightarrow> heap w' a = heap w a)
             \<and> next_addr w \<le> next_addr w'"
proof (induction "k - i" arbitrary: i w)
  case 0
  then show ?case by simp
next
  case (Suc d)
  define p1 where "p1 = (increment_name ^^ Suc i) p0"
  define w1 where "w1 = w\<lparr>heap := (heap w)(path := increment_name (heap w path))\<rparr>"
  define t where "t = child base (name p1) (is_dir p0)"
  define w2 where "w2 = w1\<lparr>heap := (heap w1)(next_addr w1 := t), next_addr := Suc (next_addr w1)\<rparr>"
  have h1: "heap w1 path = p1" using Suc.prems by (simp add: w1_def p1_def)
  have par1: "parent p1 = Some base" using par by (simp only: p1_def parent_funpow)
  have dir1: "is_dir p1 = is_dir p0" by (simp only: p1_def is_dir_funpow)
  have rv: "revalidate_path base (name p1) (is_dir p1) w1 = (next_addr w1, w2)"
    by (simp add: revalidate_path_def alloc_def w2_def t_def dir1)
  have h2: "heap w2 (next_addr w1) = t" by (simp add: w2_def)
  have h2p: "heap w2 path = p1" using Suc.prems h1 by (simp add: w2_def w1_def)
  have b2: "backend w2 = b" using Suc.prems by (simp add: w2_def w1_def)
  have unfold: "keep_loop self path w =
      (case exists self b t of
         Inl e \<Rightarrow> Some (Inl e, w2)
       | Inr ex \<Rightarrow> if \<not> (truthy ex \<or> eq_empty_list ex) then Some (Inr (path, PyFalse), w2)
                   else keep_loop self path w2)"
    apply (subst keep_loop.simps)
    apply (simp only: Let_def w1_def[symmetric] h1 par1 option.case rv prod.case h2 b2)
    done
  have frame: "\<forall>a<next_addr w. a \<noteq> path \<longrightarrow> heap w2 a = heap w a"
    by (simp add: w2_def w1_def)
  have nx: "next_addr w2 = Suc (next_addr w)" by (simp add: w2_def w1_def)
  show ?case
  proof (cases "Suc i = k")
    case True
    with free have "exists self b t = Inr exk" by (simp add: t_def p1_def)
    with unfold free(2) have "keep_loop self path w = Some (Inr (path, PyFalse), w2)" by simp
    with h2p b2 frame nx True show ?thesis by (auto simp: p1_def)
  next
    case False
    with Suc.prems have lt: "Suc i < k" by simp
    with taken obtain ex where ex: "exists self b t = Inr ex" "truthy ex \<or> eq_empty_list ex"
      unfolding t_def p1_def by blast
    with unfold have u: "keep_loop self path w = keep_loop self path w2" by auto
    have d: "d = k - Suc i" using Suc.hyps(2) by simp
    have "path < next_addr w2" using Suc.prems nx by simp
    from Suc.hyps(1)[OF d lt _ b2 this] h2p
    obtain w' where w': "keep_loop self path w2 = Some (Inr (path, PyFalse), w')"
       "heap w' path = (increment_name ^^ k) p0" "backend w' = b"
       "\<forall>a<next_addr w2. a \<noteq> path \<longrightarrow> heap w' a = heap w2 a" "next_addr w2 \<le> next_addr w'"
      unfolding p1_def by blast
    with u frame nx show ?thesis by (intro exI[of _ w']) auto
  qed
qed

lemma splitext_append: "splitext nm = (s, e) \<Longrightarrow> s @ e = nm"
proof -
  assume a: "splitext nm = (s, e)"
  show ?thesis
  proof (cases "dropWhile (\<lambda>c. c \<noteq> CHR ''.'') (rev nm)")
    case Nil
    with a show ?thesis by (simp add: splitext_def)
  next
    case (Cons c t)
    have c: "c = CHR ''.''"
      using hd_dropWhile[of "\<lambda>c. c \<noteq> CHR ''.''" "rev nm"] Cons by simp
    have "rev nm = takeWhile (\<lambda>c. c \<noteq> CHR ''.'') (rev nm) @ c # t"
      using takeWhile_dropWhile_id[of "\<lambda>c. c \<noteq> CHR ''.''" "rev nm"] Cons by simp
    then have "nm = rev t @ CHR ''.'' # rev (takeWhile (\<lambda>c. c \<noteq> CHR ''.'') (rev nm))"
      using c by (metis rev_append rev.simps(2) rev_rev_ident append_Cons append_Nil append_assoc)
    with a Cons show ?thesis
      by (auto simp: splitext_def Let_def split: if_splits)
  qed
qed

lemma part_value_mk_part: "part_value (mk_part nm i) = nm"
  by (cases "splitext nm") (simp add: mk_part_def part_value_def splitext_append)

lemma name_child: "name (child base nm folder) = nm"
  by (simp add: name_def child_def part_value_mk_part)

lemma parent_parts: "parent p = Some base \<Longrightarrow> parts p \<noteq> []"
  by (auto simp: parent_def split: if_splits)

text \<open>
  Claim C4, as amended. Let the path exist, have a parent, and let the policy be
  \<open>keep\<close> (any policy other than \<open>replace\<close> and \<open>warn\<close>). If the candidates
  after \<open>1, ..., k - 1\<close> increments are found to exist and the candidate after \<open>k\<close>
  increments is found not to exist, each candidate being revalidated against the parent,
  then \<open>handle_name_conflict\<close> returns: the result is the path object it was given,
  incremented \<open>k\<close> times, paired with \<open>False\<close>, the result of the last existence
  check (it is not a flag \<open>created = true\<close>). The returned name is the name of the
  candidate that was found free, and it differs from the name the path had and from the
  name of every candidate tried before.
\<close>

theorem keep_returns_first_free_candidate:
  assumes "conflict \<noteq> ''replace''" and "conflict \<noteq> ''warn''"
    and "path < next_addr w"
    and "parent (heap w path) = Some base"
    and "exists self (backend w) (heap w path) = Inr ex" and "truthy ex \<or> eq_empty_list ex"
    and "0 < k"
    and "\<forall>j. 0 < j \<and> j < k \<longrightarrow>
           (\<exists>ex. exists self (backend w)
                   (child base (name ((increment_name ^^ j) (heap w path))) (is_dir (heap w path)))
                 = Inr ex \<and> (truthy ex \<or> eq_empty_list ex))"
    and "exists self (backend w)
           (child base (name ((increment_name ^^ k) (heap w path))) (is_dir (heap w path)))
         = Inr exk"
    and "\<not> (truthy exk \<or> eq_empty_list exk)"
  shows "\<exists>w'. handle_name_conflict self path conflict w = Some (Inr (path, PyFalse), w')
            \<and> heap w' path = (increment_name ^^ k) (heap w path)
            \<and> name (heap w' path)
                = name (child base (name ((increment_name ^^ k) (heap w path))) (is_dir (heap w path)))
            \<and> (\<forall>j<k. name (heap w' path) \<noteq> name ((increment_name ^^ j) (heap w path)))"
proof -
  have hnc: "handle_name_conflict self path conflict w = keep_loop self path w"
    using assms(1,2,5,6) by (auto simp: handle_name_conflict_def)
  have "heap w path = (increment_name ^^ 0) (heap w path)" by simp
  from keep_loop_finds[OF assms(4) assms(9) assms(10) assms(8) assms(7) this refl assms(3)]
  obtain w' where w': "keep_loop self path w = Some (Inr (path, PyFalse), w')"
    "heap w' path = (increment_name ^^ k) (heap w path)" by blast
  have ne: "parts (heap w path) \<noteq> []" using assms(4) by (rule parent_parts)
  have "\<forall>j<k. name (heap w' path) \<noteq> name ((increment_name ^^ j) (heap w path))"
    using name_funpow_distinct[OF ne] w'(2) by auto
  with hnc w' show ?thesis by (simp add: name_child)
qed

theorem keep_returns_first_free_candidate_witness:
  "(\<exists>w'. handle_name_conflict demo 0 ''keep'' demo_world = Some (Inr (0, PyFalse), w')
        \<and> name (heap w' 0) = ''a (2).txt'')
 \<and> exists demo demo_fs (path_of [''a.txt''] False) = Inr (Found (Single (Metadata ''a.txt'' False [])))
 \<and> exists demo demo_fs (path_of [''a (1).txt''] False)
      = Inr (Found (Single (Metadata ''a (1).txt'' False [])))
 \<and> exists demo demo_fs (path_of [''a (2).txt''] False) = Inr PyFalse"
proof -
  have b: "backend demo_world = demo_fs" by (simp add: demo_world_def world_of_def)
  have h: "heap demo_world 0 = path_of [''a.txt''] False" by (simp add: demo_world_def world_of_def)
  have n: "0 < next_addr demo_world" by (simp add: demo_world_def world_of_def)
  have par: "parent (heap demo_world 0) = Some root"
    unfolding h by code_simp
  have e0: "exists demo (backend demo_world) (heap demo_world 0)
              = Inr (Found (Single (Metadata ''a.txt'' False [])))"
    unfolding b h by code_simp
  have e1: "exists demo (backend demo_world)
              (child root (name ((increment_name ^^ 1) (heap demo_world 0))) (is_dir (heap demo_world 0)))
            = Inr (Found (Single (Metadata ''a (1).txt'' False [])))"
    unfolding b h by code_simp
  have e2: "exists demo (backend demo_world)
              (child root (name ((increment_name ^^ 2) (heap demo_world 0))) (is_dir (heap demo_world 0)))
            = Inr PyFalse"
    unfolding b h by code_simp
  have taken: "\<forall>j. 0 < j \<and> j < 2 \<longrightarrow>
           (\<exists>ex. exists demo (backend demo_world)
                   (child root (name ((increment_name ^^ j) (heap demo_world 0))) (is_dir (heap demo_world 0)))
                 = Inr ex \<and> (truthy ex \<or> eq_empty_list ex))"
  proof (intro allI impI)
    fix j :: nat assume "0 < j \<and> j < 2"
    then have "j = 1" by simp
    with e1 show "\<exists>ex. exists demo (backend demo_world)
                   (child root (name ((increment_name ^^ j) (heap demo_world 0))) (is_dir (heap demo_world 0)))
                 = Inr ex \<and> (truthy ex \<or> eq_empty_list ex)" by simp
  qed
  have nm: "name ((increment_name ^^ 2) (heap demo_world 0)) = ''a (2).txt''"
    unfolding h by code_simp
  have "\<exists>w'. handle_name_conflict demo 0 ''keep'' demo_world = Some (Inr (0, PyFalse), w')
            \<and> name (heap w' 0) = ''a (2).txt''"
    using keep_returns_first_free_candidate[of "''keep''" 0 demo_world root demo _ 2 PyFalse,
            OF _ _ n par e0 _ _ taken e2] nm
    by auto
  moreover have "exists demo demo_fs (path_of [''a.txt''] False) = Inr (Found (Single (Metadata ''a.txt'' False [])))"
    by code_simp
  moreover have "exists demo demo_fs (path_of [''a (1).txt''] False)
      = Inr (Found (Single (Metadata ''a (1).txt'' False [])))" by code_simp
  moreover have "exists demo demo_fs (path_of [''a (2).txt''] False) = Inr PyFalse" by code_simp
  ultimately show ?thesis by simp
qed

text \<open>
  The claim as stated fails: for the existing \<open>/a.txt\<close> the second component of the
  result under \<open>keep\<close> is Python's \<open>False\<close>.
\<close>

theorem keep_created_flag_counterexample:
  "exists demo demo_fs (path_of [''a.txt''] False) = Inr (Found (Single (Metadata ''a.txt'' False [])))
 \<and> map_option fst (handle_name_conflict demo 0 ''keep'' demo_world) = Some (Inr (0, PyFalse))
 \<and> \<not> truthy PyFalse"
  by code_simp


section \<open>The flag \<open>created\<close> of the recursive tree operation\<close>

text \<open>
  Claim C7. The tree operation starts by deleting \<open>dest_path\<close> on the destination
  provider. When the delete succeeds, the operation goes on and every result it returns
  carries \<open>created = False\<close>. When the delete raises a provider error of code 404, the
  operation goes on and every result it returns carries \<open>created = True\<close>. When the
  delete raises anything else, the operation raises that error in the state the delete
  left: no folder is created and no child is transferred.
\<close>

theorem folder_file_op_created_flag:
  assumes "is_dir (heap w src_path)"
  shows "folder_file_op OP_CONCURRENCY self func dest_provider src_path dest_path w =
     (case delete dest_provider (heap w dest_path) (backend w) of
        (Inr u, b) \<Rightarrow>
          with_created False
            (populate OP_CONCURRENCY self func dest_provider src_path dest_path (w\<lparr>backend := b\<rparr>))
      | (Inl e, b) \<Rightarrow>
          if is_provider_error e \<and> code e = 404
          then with_created True
                 (populate OP_CONCURRENCY self func dest_provider src_path dest_path
                    (w\<lparr>backend := b\<rparr>))
          else Some (Inl e, w\<lparr>backend := b\<rparr>))"
  using assms
  by (auto simp: folder_file_op_def delete_dest_def with_created_def
           split: prod.splits sum.splits option.splits)

theorem folder_file_op_created_flag_witness:
  "is_dir (heap tree_world 0)
 \<and> delete lenient (heap tree_world 2) (backend tree_world) = (Inl NotFoundError, tree_fs)
 \<and> is_provider_error NotFoundError \<and> code NotFoundError = 404
 \<and> outcome_of (folder_file_op 2 lenient (\<lambda>d s t. copy 1 2 lenient d s t None ''replace'' False)
                  lenient 0 2 tree_world)
      = Some (Inr (Metadata ''new'' True [Metadata ''a.txt'' False [], Metadata ''b.txt'' False []],
                   True))
 \<and> fst (delete lenient (heap tree_world 1) (backend tree_world)) = Inr ()
 \<and> outcome_of (folder_file_op 2 lenient (\<lambda>d s t. copy 1 2 lenient d s t None ''replace'' False)
                  lenient 0 1 tree_world)
      = Some (Inr (Metadata ''dst'' True [Metadata ''a.txt'' False [], Metadata ''b.txt'' False []],
                   False))"
proof -
  have d: "is_dir (heap tree_world 0)" by code_simp
  have del2: "delete lenient (heap tree_world 2) (backend tree_world) = (Inl NotFoundError, tree_fs)"
    by code_simp
  have del1: "fst (delete lenient (heap tree_world 1) (backend tree_world)) = Inr ()"
    by code_simp
  have p2: "outcome_of (with_created True
              (populate 2 lenient (\<lambda>d s t. copy 1 2 lenient d s t None ''replace'' False)
                 lenient 0 2 (tree_world\<lparr>backend := tree_fs\<rparr>)))
      = Some (Inr (Metadata ''new'' True [Metadata ''a.txt'' False [], Metadata ''b.txt'' False []],
                   True))"
    by code_simp
  have p1: "outcome_of (with_created False
              (populate 2 lenient (\<lambda>d s t. copy 1 2 lenient d s t None ''replace'' False)
                 lenient 0 1 (tree_world\<lparr>backend := snd (delete lenient (heap tree_world 1) (backend tree_world))\<rparr>)))
      = Some (Inr (Metadata ''dst'' True [Metadata ''a.txt'' False [], Metadata ''b.txt'' False []],
                   False))"
    by code_simp
  have a: "outcome_of (folder_file_op 2 lenient (\<lambda>d s t. copy 1 2 lenient d s t None ''replace'' False)
                  lenient 0 2 tree_world)
      = Some (Inr (Metadata ''new'' True [Metadata ''a.txt'' False [], Metadata ''b.txt'' False []],
                   True))"
    using folder_file_op_created_flag[OF d, of 2 lenient _ lenient 2] del2 p2 by simp
  have b: "outcome_of (folder_file_op 2 lenient (\<lambda>d s t. copy 1 2 lenient d s t None ''replace'' False)
                  lenient 0 1 tree_world)
      = Some (Inr (Metadata ''dst'' True [Metadata ''a.txt'' False [], Metadata ''b.txt'' False []],
                   False))"
    using folder_file_op_created_flag[OF d, of 2 lenient _ lenient 1] del1 p1
    by (cases "delete lenient (heap tree_world 1) (backend tree_world)") auto
  from a b d del2 del1 show ?thesis by simp
qed


section \<open>The batches of the tree operation\<close>

text \<open>
  For a positive limit the batches are the children in their order, cut into pieces of at
  most \<open>OP_CONCURRENCY\<close> children, none of them empty.
\<close>

lemma concat_batches: "0 < n \<Longrightarrow> concat (batches n xs) = xs"
proof (induction n xs rule: batches.induct)
  case (1 n xs)
  show ?case
  proof (cases "xs = []")
    case True
    then show ?thesis by (simp add: batches.simps)
  next
    case False
    with "1.prems" have "batches n xs = take n xs # batches n (drop n xs)"
      by (subst batches.simps) simp
    moreover have "concat (batches n (drop n xs)) = drop n xs"
      using "1.IH" "1.prems" False by simp
    ultimately show ?thesis by simp
  qed
qed

lemma length_batches: "b \<in> set (batches n xs) \<Longrightarrow> length b \<le> n \<and> b \<noteq> []"
proof (induction n xs rule: batches.induct)
  case (1 n xs)
  show ?case
  proof (cases "n = 0 \<or> xs = []")
    case True
    with "1.prems" show ?thesis by (simp add: batches.simps)
  next
    case False
    then have "batches n xs = take n xs # batches n (drop n xs)"
      by (subst batches.simps) simp
    with "1.prems" consider "b = take n xs" | "b \<in> set (batches n (drop n xs))" by auto
    then show ?thesis
    proof cases
      case 1
      with False show ?thesis by auto
    next
      case 2
      with "1.IH" False show ?thesis by simp
    qed
  qed
qed

text \<open>A batch that raises ends the tree operation; the batches before it have run.\<close>

lemma run_batches_append:
  "run_batches func dest_provider src_path dest_path (bs @ cs) acc w =
     (case run_batches func dest_provider src_path dest_path bs acc w of
        None \<Rightarrow> None
      | Some (Inl e, w1) \<Rightarrow> Some (Inl e, w1)
      | Some (Inr ms, w1) \<Rightarrow> run_batches func dest_provider src_path dest_path cs ms w1)"
  by (induction bs arbitrary: acc w) (auto split: option.splits prod.splits sum.splits)

section \<open>What naming resolution leaves of the store\<close>












section \<open>Move and copy-then-delete\<close>





















section \<open>The rename step of \<open>copy\<close>\<close>






section \<open>The rate limiter does not pace\<close>

lemma wrapped_known_loop:
  assumes "THROTTLES w loop = Some (0, t, event)" and "events w event" and "1 \<le> concurrency"
  shows "wrapped concurrency interval loop w = Some ((1, clock w), call_func w)"
  using assms by (simp add: wrapped_def lookup_or_init_def)

lemma calls_known_loop:
  assumes "THROTTLES w loop = Some (0, t, event)" and "events w event" and "1 \<le> concurrency"
  shows "calls concurrency interval loop gaps w
           = Some (w\<lparr>clock := clock w + sum_list gaps,
                     started := started w @ arrivals (clock w) gaps\<rparr>)"
  using assms
proof (induction gaps arbitrary: w)
  case Nil
  then show ?case by simp
next
  case (Cons gap gaps)
  define w1 where "w1 = call_func (w\<lparr>clock := clock w + gap\<rparr>)"
  have "wrapped concurrency interval loop (w\<lparr>clock := clock w + gap\<rparr>)
          = Some ((1, clock w + gap), w1)"
    using wrapped_known_loop[of "w\<lparr>clock := clock w + gap\<rparr>" loop t event concurrency interval]
          Cons.prems
    by (simp add: w1_def)
  then have "calls concurrency interval loop (gap # gaps) w = calls concurrency interval loop gaps w1"
    by simp
  also have "\<dots> = Some (w1\<lparr>clock := clock w1 + sum_list gaps,
                            started := started w1 @ arrivals (clock w1) gaps\<rparr>)"
    using Cons.prems by (intro Cons.IH) (simp_all add: w1_def call_func_def)
  also have "\<dots> = Some (w\<lparr>clock := clock w + sum_list (gap # gaps),
                            started := started w @ arrivals (clock w) (gap # gaps)\<rparr>)"
    by (simp add: w1_def call_func_def add.assoc)
  finally show ?case .
qed

text \<open>
  Whatever the times at which the calls are made on one event loop, for a limit of at
  least one call: no call sleeps, every call starts when it is made, and the entry of the
  dictionary stays what the first call stored.
\<close>

lemma throttle_never_paces:
  assumes "1 \<le> concurrency"
  shows "\<exists>w. calls concurrency interval loop gaps (fresh_world now) = Some w
           \<and> slept w = [] \<and> started w = arrivals now gaps
           \<and> (gaps \<noteq> [] \<longrightarrow> THROTTLES w loop = Some (0, now + hd gaps, 0))"
proof (cases gaps)
  case Nil
  then show ?thesis by (simp add: fresh_world_def)
next
  case (Cons gap rest)
  define w1 where "w1 = call_func ((fresh_world now)\<lparr>clock := now + gap,
                         THROTTLES := [loop \<mapsto> (0, now + gap, 0)],
                         events := (\<lambda>_. False)(0 := True), next_event := Suc 0\<rparr>)"
  have first: "wrapped concurrency interval loop ((fresh_world now)\<lparr>clock := clock (fresh_world now) + gap\<rparr>)
                 = Some ((1, now + gap), w1)"
    using assms by (simp add: wrapped_def lookup_or_init_def fresh_world_def w1_def Let_def call_func_def)
  have "calls concurrency interval loop rest w1
          = Some (w1\<lparr>clock := clock w1 + sum_list rest,
                      started := started w1 @ arrivals (clock w1) rest\<rparr>)"
    by (rule calls_known_loop[where t = "now + gap" and event = 0])
       (use assms in \<open>simp_all add: w1_def call_func_def fresh_world_def\<close>)
  with first Cons show ?thesis
    by (simp add: w1_def call_func_def fresh_world_def)
qed

text \<open>
  Claim C1, at the failing input: with \<open>concurrency = 10\<close> and an interval of one second
  (1000 ticks of one millisecond), eleven calls made one millisecond apart on one event
  loop all start when they are made. None of them sleeps, the counter stored for the loop
  is still 0 after them, and the starts are not paced: the window of one second that
  opens at the first of them holds all eleven.
\<close>

theorem throttle_admits_eleven_calls:
  "map_option slept (calls 10 1000 0 (replicate 11 1) (fresh_world 0)) = Some []
 \<and> map_option started (calls 10 1000 0 (replicate 11 1) (fresh_world 0))
     = Some [1, 2, 3, 4, 5, 6, 7, 8, 9, 10, 11]
 \<and> map_option (\<lambda>w. THROTTLES w 0) (calls 10 1000 0 (replicate 11 1) (fresh_world 0))
     = Some (Some (0, 1, 0))
 \<and> \<not> paced 10 1000 [1, 2, 3, 4, 5, 6, 7, 8, 9, 10, 11]"
  by code_simp

end
